theory Spec2Isabelle
  imports Complex_Main "HOL-Library.Word" "HOL-Library.Multiset"
begin

section \<open>Host-language values: exceptions, byte strings, list indexing\<close>

text \<open>
  The exception classes raised in \<^verbatim>\<open>dandietag.py\<close>: \<^verbatim>\<open>ValueError\<close>
  (file too large; not all part hashes submitted), \<^verbatim>\<open>IndexError\<close> (part lookup and
  list indexing out of range), \<^verbatim>\<open>RuntimeError\<close> (digest submitted twice; update
  after completion) and \<^verbatim>\<open>AssertionError\<close> (the \<^verbatim>\<open>assert d is not None\<close>
  of \<^verbatim>\<open>as_str\<close>).
\<close>

datatype error = ValueError | IndexError | RuntimeError | AssertionError

type_synonym bytes = "8 word list"

text \<open>
  Python list indexing \<^verbatim>\<open>xs[i]\<close> and item assignment \<^verbatim>\<open>xs[i] = v\<close>: a negative
  index counts from the end, anything outside \<open>[-len, len)\<close> raises \<^verbatim>\<open>IndexError\<close>.
\<close>

definition list_index :: "'a list \<Rightarrow> int \<Rightarrow> error + nat" where
  "list_index xs i =
     (if 0 \<le> i \<and> i < int (length xs) then Inr (nat i)
      else if i < 0 \<and> - int (length xs) \<le> i then Inr (nat (int (length xs) + i))
      else Inl IndexError)"

definition list_getitem :: "'a list \<Rightarrow> int \<Rightarrow> error + 'a" where
  "list_getitem xs i = (case list_index xs i of Inl err \<Rightarrow> Inl err | Inr j \<Rightarrow> Inr (xs ! j))"

definition list_setitem :: "'a list \<Rightarrow> int \<Rightarrow> 'a \<Rightarrow> error + 'a list" where
  "list_setitem xs i v =
     (case list_index xs i of Inl err \<Rightarrow> Inl err | Inr j \<Rightarrow> Inr (xs[j := v]))"

section \<open>Size helpers and \<^verbatim>\<open>Part\<close>\<close>

definition mb :: "int \<Rightarrow> int" where
  "mb bytes_size = bytes_size * 2 ^ 20"

definition gb :: "int \<Rightarrow> int" where
  "gb bytes_size = bytes_size * 2 ^ 30"

definition tb :: "int \<Rightarrow> int" where
  "tb bytes_size = bytes_size * 2 ^ 40"

record Part =
  number :: int
  offset :: int
  size_p :: int

section \<open>\<^verbatim>\<open>PartGenerator\<close>\<close>

record PartGenerator =
  part_qty :: int
  initial_part_size :: int
  final_part_size :: int

definition MAX_PARTS :: int where
  "MAX_PARTS = 10000"

definition MIN_PART_SIZE :: int where
  "MIN_PART_SIZE = mb 5"

definition MAX_PART_SIZE :: int where
  "MAX_PART_SIZE = gb 5"

text \<open>
  \<^verbatim>\<open>math.ceil(a / b)\<close> for a positive divisor. The source divides in floating point;
  the only calls are \<^verbatim>\<open>file_size / 2**26\<close> and \<^verbatim>\<open>file_size / 10000\<close> with
  \<open>file_size \<le> 5 * 2^40 < 2^53\<close>. The first quotient is exact in a double, and the second is
  correctly rounded with an error below \<open>2^-23\<close>, while a quotient that is not an integer is at
  least \<open>1/10000\<close> away from one: for every non-negative supported file size the ceiling of the
  double is the ceiling of the exact quotient, which is what this definition computes.
\<close>

definition ceil_div :: "int \<Rightarrow> int \<Rightarrow> int" where
  "ceil_div a b = - ((- a) div b)"

text \<open>
  Lines 47--59 of \<^verbatim>\<open>for_file_size\<close>, without the size check that sits between them:
  the part size the file is divided by.
\<close>

definition candidate_part_size :: "int \<Rightarrow> int" where
  "candidate_part_size file_size =
     (let part_size = mb 64;
          part_size = (if ceil_div file_size part_size \<ge> MAX_PARTS
                       then ceil_div file_size MAX_PARTS else part_size);
          part_size = (if part_size < MIN_PART_SIZE then MIN_PART_SIZE else part_size);
          part_size = (if part_size > MAX_PART_SIZE then MAX_PART_SIZE else part_size)
      in part_size)"

definition for_file_size :: "int \<Rightarrow> error + PartGenerator" where
  "for_file_size file_size =
     (if file_size > tb 5 then Inl ValueError
      else
        let part_size = candidate_part_size file_size;
            q = file_size div part_size;
            r = file_size mod part_size;
            (q, r) = (if r = 0 then (q, part_size) else (q + 1, r));
            part_size = (if q = 1 then r else part_size)
        in Inr \<lparr>part_qty = q, initial_part_size = part_size, final_part_size = r\<rparr>)"

text \<open>\<^verbatim>\<open>__getitem__\<close>: lookup by 1-based part number.\<close>

definition getitem :: "PartGenerator \<Rightarrow> int \<Rightarrow> error + Part" where
  "getitem g index =
     (if 1 \<le> index \<and> index < part_qty g then
        Inr \<lparr>number = index, offset = initial_part_size g * (index - 1),
             size_p = initial_part_size g\<rparr>
      else if index = part_qty g then
        Inr \<lparr>number = index, offset = initial_part_size g * (index - 1),
             size_p = final_part_size g\<rparr>
      else Inl IndexError)"

text \<open>
  \<^verbatim>\<open>__iter__\<close>: the list of the parts the generator yields. The loop runs over
  \<^verbatim>\<open>range(1, part_qty)\<close> carrying \<open>offset\<close>; the last part is yielded after the loop,
  whatever \<open>part_qty\<close> is.
\<close>

primrec iter_loop :: "PartGenerator \<Rightarrow> int list \<Rightarrow> int \<Rightarrow> Part list" where
  "iter_loop g [] offs =
     [\<lparr>number = part_qty g, offset = offs, size_p = final_part_size g\<rparr>]"
| "iter_loop g (n # ns) offs =
     \<lparr>number = n, offset = offs, size_p = initial_part_size g\<rparr>
       # iter_loop g ns (offs + initial_part_size g)"

definition iter :: "PartGenerator \<Rightarrow> Part list" where
  "iter g = iter_loop g [1 .. part_qty g - 1] 0"

text \<open>
  What the claims say of an iteration: \<open>covers lo ps hi\<close> holds when the parts \<open>ps\<close>, in
  order, tile the byte range \<open>[lo, hi)\<close>: each part starts where the previous one ended, has a
  positive size, and the last one ends at \<open>hi\<close>.
\<close>

fun covers :: "int \<Rightarrow> Part list \<Rightarrow> int \<Rightarrow> bool" where
  "covers lo [] hi = (lo = hi)"
| "covers lo (p # ps) hi = (offset p = lo \<and> 0 < size_p p \<and> covers (lo + size_p p) ps hi)"

section \<open>Digest text\<close>

text \<open>
  \<^verbatim>\<open>hashlib.md5\<close> is a library function: it is a parameter \<open>H :: bytes \<Rightarrow> bytes\<close> of
  every operation that hashes. \<^verbatim>\<open>hexdigest()\<close> writes each byte of the digest as two
  lowercase hexadecimal characters, and the f-string writes the list length in decimal.
\<close>

definition hex_char :: "nat \<Rightarrow> char" where
  "hex_char n = ''0123456789abcdef'' ! n"

definition hexdigest :: "bytes \<Rightarrow> string" where
  "hexdigest bs = concat (map (\<lambda>b. [hex_char (unat b div 16), hex_char (unat b mod 16)]) bs)"

definition digit_char :: "nat \<Rightarrow> char" where
  "digit_char n = ''0123456789'' ! n"

fun str_nat :: "nat \<Rightarrow> string" where
  "str_nat n = (if n < 10 then [digit_char n] else str_nat (n div 10) @ [digit_char (n mod 10)])"

text \<open>
  The language of \<^verbatim>\<open>REGEX = r"[0-9a-f]{32}-\d{1,5}"\<close> on ASCII text, as a full match:
  32 lowercase hexadecimal characters, a hyphen, one to five decimal digits.
\<close>

definition is_hex_lower :: "char \<Rightarrow> bool" where
  "is_hex_lower c = (c \<in> set ''0123456789abcdef'')"

definition is_digit :: "char \<Rightarrow> bool" where
  "is_digit c = (c \<in> set ''0123456789'')"

definition matches_REGEX :: "string \<Rightarrow> bool" where
  "matches_REGEX s =
     (length (take 32 s) = 32 \<and> list_all is_hex_lower (take 32 s) \<and>
      (case drop 32 s of
         [] \<Rightarrow> False
       | c # ds \<Rightarrow> c = CHR ''-'' \<and> 1 \<le> length ds \<and> length ds \<le> 5 \<and> list_all is_digit ds))"

definition MAX_STR_LENGTH :: nat where
  "MAX_STR_LENGTH = 38"

text \<open>
  Reading the text back: the number a string of decimal digits denotes, and the bytes a string
  of hexadecimal digit pairs denotes. A digit's value is its position in the digit alphabet.
\<close>

definition digit_value :: "char \<Rightarrow> nat" where
  "digit_value c = length (takeWhile (\<lambda>d. d \<noteq> c) ''0123456789'')"

definition decimal_value :: "string \<Rightarrow> nat" where
  "decimal_value cs = foldl (\<lambda>a c. 10 * a + digit_value c) 0 cs"

definition hex_value :: "char \<Rightarrow> nat" where
  "hex_value c = length (takeWhile (\<lambda>d. d \<noteq> c) ''0123456789abcdef'')"

fun bytes_of_hex :: "string \<Rightarrow> bytes" where
  "bytes_of_hex (a # b # cs) = word_of_nat (16 * hex_value a + hex_value b) # bytes_of_hex cs"
| "bytes_of_hex cs = []"

section \<open>\<^verbatim>\<open>DandiETag\<close>\<close>

text \<open>
  The object's three attributes. Every method that mutates the object takes the state and
  returns the outcome of the call (\<open>Inl\<close> the exception raised, \<open>Inr ()\<close> a normal return)
  together with the state the object is left in.
\<close>

record DandiETag =
  part_gen :: PartGenerator
  md5_digests :: "bytes option list"
  next_index :: int

text \<open>
  \<^verbatim>\<open>__init__\<close>. \<^verbatim>\<open>len(self._part_gen)\<close> raises \<^verbatim>\<open>ValueError\<close> when
  \<^verbatim>\<open>__len__\<close> returns a negative number, so an object that exists has \<open>0 \<le> part_qty\<close>.
\<close>

definition new_etag :: "PartGenerator \<Rightarrow> DandiETag" where
  "new_etag g = \<lparr>part_gen = g, md5_digests = replicate (nat (part_qty g)) None, next_index = 0\<rparr>"

definition etag_init :: "int \<Rightarrow> error + DandiETag" where
  "etag_init file_size =
     (case for_file_size file_size of
        Inl err \<Rightarrow> Inl err
      | Inr g \<Rightarrow> if part_qty g < 0 then Inl ValueError else Inr (new_etag g))"

definition etag_part_qty :: "DandiETag \<Rightarrow> int" where
  "etag_part_qty e = part_qty (part_gen e)"

definition complete :: "DandiETag \<Rightarrow> bool" where
  "complete e = (next_index e = etag_part_qty e)"

definition get_parts :: "DandiETag \<Rightarrow> Part list" where
  "get_parts e = iter (part_gen e)"

definition get_next_part :: "DandiETag \<Rightarrow> error + Part option" where
  "get_next_part e =
     (if next_index e < etag_part_qty e then
        (case getitem (part_gen e) (next_index e + 1) of
           Inl err \<Rightarrow> Inl err
         | Inr p \<Rightarrow> Inr (Some p))
      else Inr None)"

text \<open>The loop of \<^verbatim>\<open>as_str\<close> that builds \<open>blob\<close>, with its assertion.\<close>

fun blob_loop :: "bytes option list \<Rightarrow> bytes \<Rightarrow> error + bytes" where
  "blob_loop [] blob = Inr blob"
| "blob_loop (None # ds) blob = Inl AssertionError"
| "blob_loop (Some d # ds) blob = blob_loop ds (blob @ d)"

definition as_str :: "(bytes \<Rightarrow> bytes) \<Rightarrow> DandiETag \<Rightarrow> error + string" where
  "as_str H e =
     (if \<not> complete e then Inl ValueError
      else
        (case blob_loop (md5_digests e) [] of
           Inl err \<Rightarrow> Inl err
         | Inr blob \<Rightarrow>
             Inr (hexdigest (H blob) @ ''-'' @ str_nat (length (md5_digests e)))))"

text \<open>\<^verbatim>\<open>_update_index\<close>: the while loop, one iteration per recursive call.\<close>

function update_index :: "DandiETag \<Rightarrow> (error + unit) \<times> DandiETag" where
  "update_index e =
     (if next_index e < etag_part_qty e then
        (case list_getitem (md5_digests e) (next_index e) of
           Inl err \<Rightarrow> (Inl err, e)
         | Inr None \<Rightarrow> (Inr (), e)
         | Inr (Some d) \<Rightarrow> update_index (e\<lparr>next_index := next_index e + 1\<rparr>))
      else (Inr (), e))"
  by pat_completeness auto
termination
  by (relation "measure (\<lambda>e. nat (etag_part_qty e - next_index e))")
     (auto simp: etag_part_qty_def)

definition add_digest :: "Part \<Rightarrow> bytes \<Rightarrow> DandiETag \<Rightarrow> (error + unit) \<times> DandiETag" where
  "add_digest p part_digest e =
     (let i = number p - 1 in
      case list_getitem (md5_digests e) i of
        Inl err \<Rightarrow> (Inl err, e)
      | Inr (Some d) \<Rightarrow> (Inl RuntimeError, e)
      | Inr None \<Rightarrow>
          (case list_setitem (md5_digests e) i (Some part_digest) of
             Inl err \<Rightarrow> (Inl err, e)
           | Inr ds \<Rightarrow> update_index (e\<lparr>md5_digests := ds\<rparr>)))"

definition add_next_digest :: "bytes \<Rightarrow> DandiETag \<Rightarrow> (error + unit) \<times> DandiETag" where
  "add_next_digest part_digest e =
     (if complete e then (Inl RuntimeError, e)
      else
        (case list_setitem (md5_digests e) (next_index e) (Some part_digest) of
           Inl err \<Rightarrow> (Inl err, e)
         | Inr ds \<Rightarrow> update_index (e\<lparr>md5_digests := ds\<rparr>)))"

definition update :: "(bytes \<Rightarrow> bytes) \<Rightarrow> bytes \<Rightarrow> DandiETag \<Rightarrow> (error + unit) \<times> DandiETag" where
  "update H block e =
     (if complete e then (Inl RuntimeError, e)
      else add_next_digest (H block) e)"

text \<open>
  \<^verbatim>\<open>from_file\<close>, on the content of the file: \<^verbatim>\<open>os.path.getsize\<close> is the length of
  the content, and \<^verbatim>\<open>f.read(n)\<close> returns the next \<open>n\<close> bytes, or what is left of the
  file when it is shorter (all of it for a negative \<open>n\<close>).
\<close>

definition file_read :: "int \<Rightarrow> bytes \<Rightarrow> bytes \<times> bytes" where
  "file_read n f = (if n < 0 then (f, []) else (take (nat n) f, drop (nat n) f))"

fun from_file_loop ::
  "(bytes \<Rightarrow> bytes) \<Rightarrow> Part list \<Rightarrow> bytes \<Rightarrow> DandiETag \<Rightarrow> (error + unit) \<times> DandiETag" where
  "from_file_loop H [] f e = (Inr (), e)"
| "from_file_loop H (part # parts) f e =
     (let (block, f') = file_read (size_p part) f in
      case update H block e of
        (Inl err, e') \<Rightarrow> (Inl err, e')
      | (Inr u, e') \<Rightarrow> from_file_loop H parts f' e')"

definition from_file :: "(bytes \<Rightarrow> bytes) \<Rightarrow> bytes \<Rightarrow> error + DandiETag" where
  "from_file H content =
     (case etag_init (int (length content)) of
        Inl err \<Rightarrow> Inl err
      | Inr etag \<Rightarrow>
          (case from_file_loop H (get_parts etag) content etag of
             (Inl err, e') \<Rightarrow> Inl err
           | (Inr u, e') \<Rightarrow> Inr e'))"

section \<open>Sequences of calls\<close>

text \<open>
  A caller's call on the accumulator. \<open>perform\<close> is the state after the call, whether it
  returned or raised; \<open>submit_all\<close> submits the digest \<open>dg k\<close> for each part of a list, part
  number \<open>k\<close>, in the order of the list, and stops at the first exception.
\<close>

datatype operation = AddDigest Part bytes | AddNextDigest bytes | Update bytes

fun run_op :: "(bytes \<Rightarrow> bytes) \<Rightarrow> operation \<Rightarrow> DandiETag \<Rightarrow> (error + unit) \<times> DandiETag" where
  "run_op H (AddDigest p d) e = add_digest p d e"
| "run_op H (AddNextDigest d) e = add_next_digest d e"
| "run_op H (Update block) e = update H block e"

definition perform :: "(bytes \<Rightarrow> bytes) \<Rightarrow> DandiETag \<Rightarrow> operation \<Rightarrow> DandiETag" where
  "perform H e op = snd (run_op H op e)"

fun submit_all :: "(int \<Rightarrow> bytes) \<Rightarrow> Part list \<Rightarrow> DandiETag \<Rightarrow> (error + unit) \<times> DandiETag" where
  "submit_all dg [] e = (Inr (), e)"
| "submit_all dg (p # ps) e =
     (case add_digest p (dg (number p)) e of
        (Inl err, e') \<Rightarrow> (Inl err, e')
      | (Inr u, e') \<Rightarrow> submit_all dg ps e')"

text \<open>
  The number of slots filled without a gap from slot 0, and the state of an accumulator
  between calls: as many slots as the plan has parts, and the cursor on the first empty slot.
\<close>

definition filled_prefix :: "bytes option list \<Rightarrow> nat" where
  "filled_prefix ds = length (takeWhile (\<lambda>d. d \<noteq> None) ds)"

definition wf_etag :: "DandiETag \<Rightarrow> bool" where
  "wf_etag e =
     (0 \<le> etag_part_qty e \<and> length (md5_digests e) = nat (etag_part_qty e) \<and>
      next_index e = int (filled_prefix (md5_digests e)))"

section \<open>Simplifier setup\<close>

declare update_index.simps [simp del]

declare str_nat.simps [simp del]

section \<open>Constants\<close>

lemma tb5_val: "tb 5 = 5497558138880"
  by (simp add: tb_def)

lemma mb64_val: "mb 64 = 67108864"
  by (simp add: mb_def)

lemma mb5_val: "mb 5 = 5242880"
  by (simp add: mb_def)

lemma gb5_val: "gb 5 = 5368709120"
  by (simp add: gb_def)

lemmas size_vals = tb5_val mb64_val mb5_val gb5_val MAX_PARTS_def MIN_PART_SIZE_def
  MAX_PART_SIZE_def

text \<open>\<open>ceil_div\<close> is the ceiling of the exact quotient.\<close>

lemma ceil_div_ceiling: "ceil_div a b = \<lceil>real_of_int a / real_of_int b\<rceil>"
proof -
  have "- (real_of_int a / real_of_int b) = real_of_int (- a) / real_of_int b" by simp
  then have "\<lfloor>- (real_of_int a / real_of_int b)\<rfloor> = (- a) div b"
    by (simp only: floor_divide_of_int_eq)
  then show ?thesis by (simp add: ceil_div_def ceiling_def)
qed

lemma candidate_part_size_zero: "candidate_part_size 0 = 67108864"
  by (simp add: candidate_part_size_def ceil_div_def size_vals)

lemma for_file_size_zero:
  "for_file_size 0 =
     Inr \<lparr>part_qty = 0, initial_part_size = 67108864, final_part_size = 67108864\<rparr>"
  by (simp add: for_file_size_def candidate_part_size_zero size_vals)

section \<open>The partition plan\<close>

lemma candidate_pos: "0 < candidate_part_size s"
  by (simp add: candidate_part_size_def Let_def size_vals)

lemma candidate_times: "0 \<le> s \<Longrightarrow> s \<le> tb 5 \<Longrightarrow> s \<le> candidate_part_size s * 10000"
  unfolding candidate_part_size_def Let_def size_vals ceil_div_def
  by (auto split: if_splits) 

lemma div_count_le:
  fixes s p :: int
  assumes "0 < p" "s \<le> p * n" 
  shows "s div p + (if s mod p = 0 then 0 else 1) \<le> n"
proof -
  have "s div p \<le> (p * n) div p" using assms by (intro zdiv_mono1) auto
  then have le: "s div p \<le> n" using assms by simp
  show ?thesis
  proof (cases "s div p = n")
    case True
    have "s = p * (s div p) + s mod p" by simp
    then have "s = p * n + s mod p" using True by simp
    moreover have "0 \<le> s mod p" using assms by simp
    ultimately have "s mod p = 0" using assms by linarith
    then show ?thesis using le by simp
  next
    case False
    then show ?thesis using le by simp
  qed
qed

lemma for_file_size_unfold:
  assumes "s \<le> tb 5" "p = candidate_part_size s" "q = s div p" "r = s mod p"
  shows "for_file_size s =
           Inr \<lparr>part_qty = (if r = 0 then q else q + 1),
                initial_part_size =
                  (if (if r = 0 then q else q + 1) = 1 then (if r = 0 then p else r) else p),
                final_part_size = (if r = 0 then p else r)\<rparr>"
  using assms by (simp add: for_file_size_def Let_def)

lemma for_file_size_plan:
  assumes "1 \<le> s" "s \<le> tb 5"
  shows "\<exists>g. for_file_size s = Inr g \<and> 1 \<le> part_qty g \<and> part_qty g \<le> 10000 \<and>
           0 < initial_part_size g \<and> 0 < final_part_size g \<and>
           (part_qty g - 1) * initial_part_size g + final_part_size g = s"
proof -
  define p where "p = candidate_part_size s"
  define q where "q = s div p"
  define r where "r = s mod p"
  note ffs = for_file_size_unfold[OF assms(2) p_def q_def r_def]
  have p: "0 < p" by (simp add: p_def candidate_pos)
  have sp: "s \<le> p * 10000" using candidate_times[of s] assms by (simp add: p_def)
  have cnt: "q + (if r = 0 then 0 else 1) \<le> 10000"
    unfolding q_def r_def using div_count_le[OF p sp] .
  have eq: "q * p + r = s" by (simp add: q_def r_def)
  have r0: "0 \<le> r" and r1: "r < p" using p by (simp_all add: r_def)
  have q0: "0 \<le> q" using p assms by (simp add: q_def pos_imp_zdiv_nonneg_iff)
  show ?thesis
  proof (cases "r = 0")
    case True
    have "q \<noteq> 0" using eq True assms by auto
    then have q1: "1 \<le> q" using q0 by linarith
    have sum: "(q - 1) * p + p = s" using eq True by (simp add: algebra_simps)
    show ?thesis using True p q1 cnt sum by (auto simp: ffs)
  next
    case False
    then have r: "0 < r" using r0 by linarith
    show ?thesis using False r p q0 cnt eq by (auto simp: ffs)
  qed
qed

lemma iter_loop_numbers: "map number (iter_loop g ns offs) = ns @ [part_qty g]"
  by (induction ns arbitrary: offs) simp_all

lemma iter_loop_length: "length (iter_loop g ns offs) = Suc (length ns)"
  by (induction ns arbitrary: offs) simp_all

lemma iter_loop_sizes:
  "sum_list (map size_p (iter_loop g ns offs)) =
     int (length ns) * initial_part_size g + final_part_size g"
  by (induction ns arbitrary: offs) (simp_all add: algebra_simps)

lemma iter_loop_covers:
  assumes "0 < initial_part_size g" "0 < final_part_size g"
  shows "hi = offs + int (length ns) * initial_part_size g + final_part_size g \<Longrightarrow>
         covers offs (iter_loop g ns offs) hi"
proof (induction ns arbitrary: offs)
  case Nil
  then show ?case using assms by simp
next
  case (Cons n ns)
  have "hi = (offs + initial_part_size g) + int (length ns) * initial_part_size g
               + final_part_size g"
    using Cons.prems by (simp add: algebra_simps)
  then have "covers (offs + initial_part_size g)
               (iter_loop g ns (offs + initial_part_size g)) hi"
    by (rule Cons.IH)
  then show ?case using assms by simp
qed

lemma iter_loop_nth_initial:
  "k < length ns \<Longrightarrow>
   iter_loop g ns offs ! k =
     \<lparr>number = ns ! k, offset = offs + initial_part_size g * int k,
      size_p = initial_part_size g\<rparr>"
proof (induction ns arbitrary: offs k)
  case Nil
  then show ?case by simp
next
  case (Cons n ns)
  then show ?case by (cases k) (simp_all add: algebra_simps)
qed

lemma iter_loop_nth_final:
  "iter_loop g ns offs ! length ns =
     \<lparr>number = part_qty g, offset = offs + initial_part_size g * int (length ns),
      size_p = final_part_size g\<rparr>"
  by (induction ns arbitrary: offs) (simp_all add: algebra_simps)

lemma upto_snoc_qty: "1 \<le> (n::int) \<Longrightarrow> [1 .. n - 1] @ [n] = [1 .. n]"
  using upto_rec2[of 1 n] by simp

lemma iter_plan:
  assumes "1 \<le> part_qty g" "0 < initial_part_size g" "0 < final_part_size g"
  shows "map number (iter g) = [1 .. part_qty g]"
    and "length (iter g) = nat (part_qty g)"
    and "sum_list (map size_p (iter g)) =
           (part_qty g - 1) * initial_part_size g + final_part_size g"
    and "covers 0 (iter g) ((part_qty g - 1) * initial_part_size g + final_part_size g)"
proof -
  have len: "int (length [1 .. part_qty g - 1]) = part_qty g - 1" using assms by simp
  show "map number (iter g) = [1 .. part_qty g]"
    using assms by (simp add: iter_def iter_loop_numbers upto_snoc_qty)
  show "length (iter g) = nat (part_qty g)"
    using assms by (simp add: iter_def iter_loop_length)
  show "sum_list (map size_p (iter g)) =
           (part_qty g - 1) * initial_part_size g + final_part_size g"
    unfolding iter_def iter_loop_sizes len ..
  show "covers 0 (iter g) ((part_qty g - 1) * initial_part_size g + final_part_size g)"
    unfolding iter_def by (rule iter_loop_covers[OF assms(2,3)]) (simp only: len add_0)
qed

lemma getitem_iter:
  assumes "1 \<le> i" "i \<le> part_qty g"
  shows "nat (i - 1) < length (iter g) \<and> getitem g i = Inr (iter g ! nat (i - 1))"
proof -
  have len: "length [1 .. part_qty g - 1] = nat (part_qty g - 1)" using assms by simp
  have l: "nat (i - 1) < length (iter g)"
    using assms by (simp add: iter_def iter_loop_length)
  show ?thesis
  proof (cases "i < part_qty g")
    case True
    then have k: "nat (i - 1) < length [1 .. part_qty g - 1]" using assms by simp
    have "[1 .. part_qty g - 1] ! nat (i - 1) = i" using assms True by simp
    then show ?thesis using l iter_loop_nth_initial[OF k, of g 0] assms True
      by (simp add: iter_def getitem_def)
  next
    case False
    then have "i = part_qty g" using assms by simp
    then show ?thesis using l iter_loop_nth_final[of g "[1 .. part_qty g - 1]" 0] assms
      by (simp add: iter_def getitem_def len)
  qed
qed

section \<open>The accumulator between calls\<close>

lemma filled_prefix_le: "filled_prefix ds \<le> length ds"
  by (simp add: filled_prefix_def length_takeWhile_le)

lemma filled_prefix_filled: "j < filled_prefix ds \<Longrightarrow> ds ! j \<noteq> None"
  unfolding filled_prefix_def using nth_mem[of j "takeWhile (\<lambda>d. d \<noteq> None) ds"]
  by (auto simp: takeWhile_nth dest: set_takeWhileD)

lemma filled_prefix_stop: "filled_prefix ds < length ds \<Longrightarrow> ds ! filled_prefix ds = None"
  unfolding filled_prefix_def using nth_length_takeWhile[of "\<lambda>d. d \<noteq> None" ds] by simp

lemma filled_prefix_ge:
  assumes "n \<le> length ds" "\<And>j. j < n \<Longrightarrow> ds ! j \<noteq> None"
  shows "n \<le> filled_prefix ds"
proof (rule ccontr)
  assume "\<not> n \<le> filled_prefix ds"
  then have lt: "filled_prefix ds < n" by simp
  then have "ds ! filled_prefix ds = None" using assms(1) by (intro filled_prefix_stop) simp
  then show False using assms(2)[OF lt] by simp
qed

lemma filled_prefix_all: "(filled_prefix ds = length ds) = (\<forall>d \<in> set ds. d \<noteq> None)"
proof
  assume "filled_prefix ds = length ds"
  then have "takeWhile (\<lambda>d. d \<noteq> None) ds = ds"
    using takeWhile_eq_take[of "\<lambda>d. d \<noteq> None" ds] by (simp add: filled_prefix_def)
  then show "\<forall>d \<in> set ds. d \<noteq> None"
    using takeWhile_eq_all_conv[of "\<lambda>d. d \<noteq> None" ds] by simp
next
  assume "\<forall>d \<in> set ds. d \<noteq> None"
  then have "takeWhile (\<lambda>d. d \<noteq> None) ds = ds"
    using takeWhile_eq_all_conv[of "\<lambda>d. d \<noteq> None" ds] by simp
  then show "filled_prefix ds = length ds"
    unfolding filled_prefix_def by (rule arg_cong)
qed

lemma filled_prefix_update:
  assumes "j < length ds"
  shows "filled_prefix ds \<le> filled_prefix (ds[j := Some d])"
proof (rule filled_prefix_ge)
  show "filled_prefix ds \<le> length (ds[j := Some d])" by (simp add: filled_prefix_le)
  fix k assume "k < filled_prefix ds"
  then show "ds[j := Some d] ! k \<noteq> None"
    using filled_prefix_filled[of k ds] filled_prefix_le[of ds]
    by (cases "k = j") (simp_all add: assms)
qed

lemma list_getitem_nonneg:
  "0 \<le> i \<Longrightarrow> nat i < length xs \<Longrightarrow> list_getitem xs i = Inr (xs ! nat i)"
  by (simp add: list_getitem_def list_index_def)

lemma list_setitem_nonneg:
  "0 \<le> i \<Longrightarrow> nat i < length xs \<Longrightarrow> list_setitem xs i v = Inr (xs[nat i := v])"
  by (simp add: list_setitem_def list_index_def)

lemma update_index_spec:
  "length (md5_digests e) = nat (etag_part_qty e) \<Longrightarrow> 0 \<le> next_index e \<Longrightarrow>
   nat (next_index e) \<le> filled_prefix (md5_digests e) \<Longrightarrow>
   update_index e = (Inr (), e\<lparr>next_index := int (filled_prefix (md5_digests e))\<rparr>)"
proof (induction e rule: update_index.induct)
  case (1 e)
  let ?ds = "md5_digests e"
  let ?ni = "next_index e"
  note len = "1.prems"(1) and nonneg = "1.prems"(2) and below = "1.prems"(3)
  show ?case
  proof (cases "?ni < etag_part_qty e")
    case True
    then have lt: "nat ?ni < length ?ds" using len nonneg by simp
    have get: "list_getitem ?ds ?ni = Inr (?ds ! nat ?ni)"
      using nonneg lt by (rule list_getitem_nonneg)
    show ?thesis
    proof (cases "?ds ! nat ?ni")
      case None
      have "\<not> nat ?ni < filled_prefix ?ds" using filled_prefix_filled[of "nat ?ni" ?ds] None by auto
      then have "int (filled_prefix ?ds) = ?ni" using below nonneg by simp
      then show ?thesis
        by (subst update_index.simps) (simp add: True get None)
    next
      case (Some d)
      have "filled_prefix ?ds \<noteq> nat ?ni"
        using filled_prefix_stop[of ?ds] lt Some by auto
      then have below': "nat (?ni + 1) \<le> filled_prefix ?ds" using below nonneg by simp
      have "update_index (e\<lparr>next_index := ?ni + 1\<rparr>) =
              (Inr (), e\<lparr>next_index := int (filled_prefix ?ds)\<rparr>)"
        using "1.IH"[OF True get Some] len nonneg below'
        by (simp add: etag_part_qty_def)
      then show ?thesis
        by (subst update_index.simps) (simp add: True get Some)
    qed
  next
    case False
    then have "length ?ds \<le> nat ?ni" using len by simp
    then have "int (filled_prefix ?ds) = ?ni"
      using below nonneg filled_prefix_le[of ?ds] by simp
    then show ?thesis
      by (subst update_index.simps) (simp add: False)
  qed
qed

lemma store_then_update:
  assumes "wf_etag e" "j < length (md5_digests e)"
  shows "update_index (e\<lparr>md5_digests := (md5_digests e)[j := Some d]\<rparr>) =
           (Inr (), e\<lparr>md5_digests := (md5_digests e)[j := Some d],
                      next_index := int (filled_prefix ((md5_digests e)[j := Some d]))\<rparr>)"
  using assms filled_prefix_update[OF assms(2), of d]
  by (subst update_index_spec) (simp_all add: wf_etag_def etag_part_qty_def)

lemma wf_store:
  assumes "wf_etag e" 
  shows "wf_etag (e\<lparr>md5_digests := (md5_digests e)[j := Some d],
                      next_index := int (filled_prefix ((md5_digests e)[j := Some d]))\<rparr>)"
  using assms by (simp add: wf_etag_def etag_part_qty_def)

lemma list_index_less: "list_index xs i = Inr j \<Longrightarrow> j < length xs"
  by (auto simp: list_index_def split: if_splits)

lemma list_getitem_cases:
  "list_getitem xs i = Inl IndexError \<and> list_setitem xs i v = Inl IndexError \<or>
   (\<exists>j < length xs. list_getitem xs i = Inr (xs ! j) \<and> list_setitem xs i v = Inr (xs[j := v]))"
proof (cases "list_index xs i")
  case (Inl err)
  then have "err = IndexError" by (auto simp: list_index_def split: if_splits)
  then show ?thesis using Inl by (simp add: list_getitem_def list_setitem_def)
next
  case (Inr j)
  then show ?thesis using list_index_less[OF Inr]
    by (intro disjI2 exI[of _ j]) (simp add: list_getitem_def list_setitem_def)
qed

lemma add_digest_wf: "wf_etag e \<Longrightarrow> wf_etag (snd (add_digest p d e))"
  using list_getitem_cases[of "md5_digests e" "number p - 1" "Some d"]
  by (auto simp: add_digest_def Let_def store_then_update wf_store split: option.splits)

lemma list_setitem_cases:
  "list_setitem xs i v = Inl IndexError \<or> (\<exists>j < length xs. list_setitem xs i v = Inr (xs[j := v]))"
  using list_getitem_cases[of xs i v] by auto

lemma add_next_digest_wf: "wf_etag e \<Longrightarrow> wf_etag (snd (add_next_digest d e))"
  using list_setitem_cases[of "md5_digests e" "next_index e" "Some d"]
  by (auto simp: add_next_digest_def store_then_update wf_store)

lemma update_wf: "wf_etag e \<Longrightarrow> wf_etag (snd (update H block e))"
  by (simp add: update_def add_next_digest_wf)

lemma perform_wf: "wf_etag e \<Longrightarrow> wf_etag (perform H e op)"
  by (cases op) (simp_all add: perform_def add_digest_wf add_next_digest_wf update_wf)

lemma performs_wf: "wf_etag e \<Longrightarrow> wf_etag (foldl (perform H) e ops)"
  by (induction ops arbitrary: e) (simp_all add: perform_wf)

lemma filled_prefix_replicate: "filled_prefix (replicate n None) = 0"
  by (cases n) (simp_all add: filled_prefix_def)

lemma new_etag_wf: "0 \<le> part_qty g \<Longrightarrow> wf_etag (new_etag g)"
  by (simp add: wf_etag_def new_etag_def etag_part_qty_def filled_prefix_replicate)

lemma etag_init_wf: "etag_init s = Inr e \<Longrightarrow> wf_etag e"
  by (auto simp: etag_init_def new_etag_wf split: sum.splits if_splits)

lemma wf_complete_iff:
  "wf_etag e \<Longrightarrow> complete e = (\<forall>d \<in> set (md5_digests e). d \<noteq> None)"
  unfolding complete_def wf_etag_def using filled_prefix_all[of "md5_digests e"]
  by auto

section \<open>Some concrete plans and accumulators\<close>

lemma iter_zero_plan:
  "iter \<lparr>part_qty = 0, initial_part_size = a, final_part_size = b\<rparr> =
     [\<lparr>number = 0, offset = 0, size_p = b\<rparr>]"
  by (simp add: iter_def)

lemma etag_init_zero:
  "etag_init 0 =
     Inr \<lparr>part_gen = \<lparr>part_qty = 0, initial_part_size = 67108864, final_part_size = 67108864\<rparr>,
          md5_digests = [], next_index = 0\<rparr>"
  by (simp add: etag_init_def for_file_size_zero new_etag_def)

lemma for_file_size_three_parts:
  "for_file_size 134217729 =
     Inr \<lparr>part_qty = 3, initial_part_size = 67108864, final_part_size = 1\<rparr>"
  by (simp add: for_file_size_def candidate_part_size_def ceil_div_def Let_def size_vals)

lemma etag_init_three_parts:
  "etag_init 134217729 =
     Inr \<lparr>part_gen = \<lparr>part_qty = 3, initial_part_size = 67108864, final_part_size = 1\<rparr>,
          md5_digests = [None, None, None], next_index = 0\<rparr>"
  by (simp add: etag_init_def for_file_size_three_parts new_etag_def numeral_3_eq_3)

lemma three_parts_run:
  "foldl (perform (\<lambda>b. b))
     \<lparr>part_gen = \<lparr>part_qty = 3, initial_part_size = 67108864, final_part_size = 1\<rparr>,
      md5_digests = [None, None, None], next_index = 0\<rparr>
     [AddDigest \<lparr>number = 2, offset = 67108864, size_p = 67108864\<rparr> [2],
      AddDigest \<lparr>number = 2, offset = 67108864, size_p = 67108864\<rparr> [9],
      Update [1]] =
   \<lparr>part_gen = \<lparr>part_qty = 3, initial_part_size = 67108864, final_part_size = 1\<rparr>,
      md5_digests = [Some [1], Some [2], None], next_index = 2\<rparr>"
  by (simp add: perform_def add_digest_def update_def add_next_digest_def complete_def
      etag_part_qty_def list_getitem_def list_setitem_def list_index_def update_index.simps)

lemma for_file_size_twelve_parts:
  "for_file_size 738197509 = Inr \<lparr>part_qty = 12, initial_part_size = 67108864, final_part_size = 5\<rparr>"
  by (simp add: for_file_size_def candidate_part_size_def ceil_div_def Let_def size_vals)

lemma etag_init_twelve_parts:
  "etag_init 738197509 =
     Inr \<lparr>part_gen = \<lparr>part_qty = 12, initial_part_size = 67108864, final_part_size = 5\<rparr>,
      md5_digests = replicate 12 None, next_index = 0\<rparr>"
  by (simp add: etag_init_def for_file_size_twelve_parts new_etag_def)

lemma twelve_parts_run:
  "foldl (perform (\<lambda>b. take 16 (b @ replicate 16 0)))
     \<lparr>part_gen = \<lparr>part_qty = 12, initial_part_size = 67108864, final_part_size = 5\<rparr>,
      md5_digests = replicate 12 None, next_index = 0\<rparr>
     [AddDigest \<lparr>number = 12, offset = 738197504, size_p = 5\<rparr> [12],
      AddDigest \<lparr>number = 1, offset = 0, size_p = 67108864\<rparr> [1],
      AddDigest \<lparr>number = 3, offset = 134217728, size_p = 67108864\<rparr> [3],
      AddDigest \<lparr>number = 2, offset = 67108864, size_p = 67108864\<rparr> [2],
      AddDigest \<lparr>number = 4, offset = 201326592, size_p = 67108864\<rparr> [4],
      AddDigest \<lparr>number = 5, offset = 268435456, size_p = 67108864\<rparr> [5],
      AddDigest \<lparr>number = 6, offset = 335544320, size_p = 67108864\<rparr> [6],
      AddDigest \<lparr>number = 7, offset = 402653184, size_p = 67108864\<rparr> [7],
      AddDigest \<lparr>number = 8, offset = 469762048, size_p = 67108864\<rparr> [8],
      AddDigest \<lparr>number = 9, offset = 536870912, size_p = 67108864\<rparr> [9],
      AddDigest \<lparr>number = 10, offset = 603979776, size_p = 67108864\<rparr> [10],
      AddDigest \<lparr>number = 11, offset = 671088640, size_p = 67108864\<rparr> [11]] =
   \<lparr>part_gen = \<lparr>part_qty = 12, initial_part_size = 67108864, final_part_size = 5\<rparr>,
      md5_digests = [Some [1], Some [2], Some [3], Some [4], Some [5], Some [6], Some [7], Some [8], Some [9], Some [10], Some [11], Some [12]], next_index = 12\<rparr>"
  by code_simp

lemma twelve_parts_text:
  "as_str (\<lambda>b. take 16 (b @ replicate 16 0))
     \<lparr>part_gen = \<lparr>part_qty = 12, initial_part_size = 67108864, final_part_size = 5\<rparr>,
      md5_digests = [Some [1], Some [2], Some [3], Some [4], Some [5], Some [6], Some [7], Some [8], Some [9], Some [10], Some [11], Some [12]], next_index = 12\<rparr> =
   Inr ''0102030405060708090a0b0c00000000-12''"
  by code_simp

lemma twelve_parts_fresh_incomplete:
  "\<not> complete \<lparr>part_gen = \<lparr>part_qty = 12, initial_part_size = 67108864, final_part_size = 5\<rparr>,
      md5_digests = replicate 12 None, next_index = 0\<rparr>"
  by (simp add: complete_def etag_part_qty_def)

section \<open>The text of a complete accumulator\<close>

lemma blob_loop_filled:
  "\<forall>d \<in> set ds. d \<noteq> None \<Longrightarrow> blob_loop ds blob = Inr (blob @ concat (map the ds))"
  by (induction ds blob rule: blob_loop.induct) simp_all

lemma blob_loop_error: "blob_loop ds blob = Inl err \<Longrightarrow> err = AssertionError"
  by (induction ds blob rule: blob_loop.induct) simp_all

lemma as_str_raises_iff: "(as_str H e = Inl ValueError) = (\<not> complete e)"
  by (auto simp: as_str_def split: sum.splits dest: blob_loop_error)

lemma as_str_complete:
  assumes "wf_etag e" "complete e"
  shows "as_str H e =
           Inr (hexdigest (H (concat (map the (md5_digests e)))) @ ''-'' @
                str_nat (length (md5_digests e)))"
  using assms wf_complete_iff[OF assms(1)] by (simp add: as_str_def blob_loop_filled)

lemma hex_char_lower: "n < 16 \<Longrightarrow> is_hex_lower (hex_char n)"
proof -
  have "\<forall>k \<in> set [0 ..< 16]. is_hex_lower (hex_char k)" by code_simp
  moreover assume "n < 16"
  ultimately show ?thesis by simp
qed

lemma digit_char_digit: "n < 10 \<Longrightarrow> is_digit (digit_char n)"
proof -
  have "\<forall>k \<in> set [0 ..< 10]. is_digit (digit_char k)" by code_simp
  moreover assume "n < 10"
  ultimately show ?thesis by simp
qed

lemma hexdigest_length: "length (hexdigest bs) = 2 * length bs"
  by (induction bs) (simp_all add: hexdigest_def)

lemma byte_nibbles: "unat (b :: 8 word) div 16 < 16" "unat b mod 16 < 16"
  using unsigned_less[of b, where ?'a = nat] by simp_all

lemma hexdigest_chars: "list_all is_hex_lower (hexdigest bs)"
  by (induction bs) (simp_all add: hexdigest_def hex_char_lower byte_nibbles)

lemma str_nat_digits: "list_all is_digit (str_nat n)"
proof (induction n rule: str_nat.induct)
  case (1 n)
  then show ?case
    by (subst str_nat.simps) (simp add: digit_char_digit)
qed

lemma str_nat_nonempty: "1 \<le> length (str_nat n)"
  by (subst str_nat.simps) simp

lemma str_nat_length: "n < 10 ^ k \<Longrightarrow> 0 < k \<Longrightarrow> length (str_nat n) \<le> k"
proof (induction k arbitrary: n)
  case 0
  then show ?case by simp
next
  case (Suc k)
  show ?case
  proof (cases "n < 10")
    case True
    then show ?thesis by (subst str_nat.simps) simp
  next
    case False
    then have k: "0 < k" using Suc.prems by (cases k) simp_all
    have "n div 10 < 10 ^ k" using Suc.prems(1) by (simp add: less_mult_imp_div_less mult.commute)
    then have "length (str_nat (n div 10)) \<le> k" using Suc.IH k by simp
    then show ?thesis using False by (subst str_nat.simps) simp
  qed
qed

lemma etag_text_format:
  assumes "length h = 16" "n \<le> 10000"
  shows "matches_REGEX (hexdigest h @ ''-'' @ str_nat n) \<and>
         length (hexdigest h @ ''-'' @ str_nat n) \<le> MAX_STR_LENGTH"
proof -
  have hl: "length (hexdigest h) = 32" using assms(1) by (simp add: hexdigest_length)
  have "n < 10 ^ 5" using assms(2) by simp
  then have nl: "length (str_nat n) \<le> 5" by (rule str_nat_length) simp
  show ?thesis
    using hl nl str_nat_nonempty[of n]
    by (simp add: matches_REGEX_def MAX_STR_LENGTH_def hexdigest_chars str_nat_digits)
qed

lemma digit_value_digit_char: "k < 10 \<Longrightarrow> digit_value (digit_char k) = k"
proof -
  have "\<forall>j \<in> set [0 ..< 10]. digit_value (digit_char j) = j" by code_simp
  moreover assume "k < 10"
  ultimately show ?thesis by simp
qed

lemma hex_value_hex_char: "k < 16 \<Longrightarrow> hex_value (hex_char k) = k"
proof -
  have "\<forall>j \<in> set [0 ..< 16]. hex_value (hex_char j) = j" by code_simp
  moreover assume "k < 16"
  ultimately show ?thesis by simp
qed

lemma digit_char_nonzero: "0 < k \<Longrightarrow> k < 10 \<Longrightarrow> digit_char k \<noteq> CHR ''0''"
proof -
  have "\<forall>j \<in> set [1 ..< 10]. digit_char j \<noteq> CHR ''0''" by code_simp
  moreover assume "0 < k" "k < 10"
  ultimately show ?thesis by simp
qed

lemma decimal_value_snoc:
  "decimal_value (cs @ [c]) = 10 * decimal_value cs + digit_value c"
  by (simp add: decimal_value_def)

lemma decimal_value_str_nat: "decimal_value (str_nat n) = n"
proof (induction n rule: str_nat.induct)
  case (1 n)
  show ?case
  proof (cases "n < 10")
    case True
    then show ?thesis
      by (subst str_nat.simps) (simp add: decimal_value_def digit_value_digit_char)
  next
    case False
    then have "decimal_value (str_nat (n div 10)) = n div 10" using "1.IH" by simp
    then show ?thesis using False
      by (subst str_nat.simps) (simp add: decimal_value_snoc digit_value_digit_char)
  qed
qed

lemma str_nat_no_leading_zero: "0 < n \<Longrightarrow> hd (str_nat n) \<noteq> CHR ''0''"
proof (induction n rule: str_nat.induct)
  case (1 n)
  show ?case
  proof (cases "n < 10")
    case True
    then show ?thesis using "1.prems"
      by (subst str_nat.simps) (simp add: digit_char_nonzero)
  next
    case False
    then have pos: "0 < n div 10" by simp
    have ne: "str_nat (n div 10) \<noteq> []" using str_nat_nonempty[of "n div 10"] by auto
    have "hd (str_nat (n div 10)) \<noteq> CHR ''0''" using "1.IH"[OF False pos] .
    then show ?thesis using False ne
      by (subst str_nat.simps) simp
  qed
qed

lemma str_nat_zero: "str_nat 0 = ''0''"
  by (subst str_nat.simps) (simp add: digit_char_def)

lemma byte_of_nibbles: "word_of_nat (16 * (unat b div 16) + unat b mod 16) = (b :: 8 word)"
proof -
  have "16 * (unat b div 16) + unat b mod 16 = unat b" by simp
  then have "word_of_nat (16 * (unat b div 16) + unat b mod 16) = (word_of_nat (unat b) :: 8 word)"
    by (simp only:)
  then show ?thesis by simp
qed

lemma bytes_of_hexdigest: "bytes_of_hex (hexdigest bs) = bs"
proof (induction bs)
  case Nil
  then show ?case by (simp add: hexdigest_def)
next
  case (Cons b bs)
  have "hexdigest (b # bs) =
          hex_char (unat b div 16) # hex_char (unat b mod 16) # hexdigest bs"
    by (simp add: hexdigest_def)
  then show ?case
    using Cons.IH byte_of_nibbles[of b]
    by (simp add: hex_value_hex_char byte_nibbles)
qed

lemma etag_text_reads:
  assumes "length h = 16"
  shows "bytes_of_hex (take 32 (hexdigest h @ ''-'' @ str_nat n)) = h \<and>
         (hexdigest h @ ''-'' @ str_nat n) ! 32 = CHR ''-'' \<and>
         decimal_value (drop 33 (hexdigest h @ ''-'' @ str_nat n)) = n \<and>
         (hd (drop 33 (hexdigest h @ ''-'' @ str_nat n)) = CHR ''0'' \<longrightarrow> n = 0)"
proof -
  have hl: "length (hexdigest h) = 32" using assms by (simp add: hexdigest_length)
  have t: "take 32 (hexdigest h @ ''-'' @ str_nat n) = hexdigest h" using hl by simp
  have d: "drop 33 (hexdigest h @ ''-'' @ str_nat n) = str_nat n" using hl by simp
  have c: "(hexdigest h @ ''-'' @ str_nat n) ! 32 = CHR ''-''" using hl by (simp add: nth_append)
  show ?thesis
    unfolding t d using c str_nat_no_leading_zero[of n]
    by (auto simp: bytes_of_hexdigest decimal_value_str_nat)
qed

lemma update_index_keeps:
  "part_gen (snd (update_index e)) = part_gen e \<and>
   md5_digests (snd (update_index e)) = md5_digests e"
proof (induction e rule: update_index.induct)
  case (1 e)
  then show ?case
    by (subst (1 2) update_index.simps) (auto split: sum.splits option.splits)
qed

lemma add_digest_part_gen: "part_gen (snd (add_digest p d e)) = part_gen e"
  by (simp add: add_digest_def Let_def update_index_keeps split: sum.splits option.splits)

lemma add_next_digest_part_gen: "part_gen (snd (add_next_digest d e)) = part_gen e"
  by (simp add: add_next_digest_def update_index_keeps split: sum.splits)

lemma perform_part_gen: "part_gen (perform H e op) = part_gen e"
  by (cases op) (simp_all add: perform_def update_def add_digest_part_gen add_next_digest_part_gen)

lemma performs_part_gen: "part_gen (foldl (perform H) e ops) = part_gen e"
  by (induction ops arbitrary: e) (simp_all add: perform_part_gen)

lemma etag_init_part_qty:
  assumes "0 \<le> s" "etag_init s = Inr e"
  shows "0 \<le> etag_part_qty e \<and> etag_part_qty e \<le> 10000"
proof (cases "s = 0")
  case True
  then show ?thesis using assms(2) by (auto simp: etag_init_zero etag_part_qty_def)
next
  case False
  then have s1: "1 \<le> s" using assms(1) by simp
  have s5: "s \<le> tb 5" using assms(2)
    by (cases "tb 5 < s") (simp_all add: etag_init_def for_file_size_def)
  obtain g where g: "for_file_size s = Inr g" "1 \<le> part_qty g" "part_qty g \<le> 10000"
    using for_file_size_plan[OF s1 s5] by blast
  then have "e = new_etag g" using assms(2) by (simp add: etag_init_def)
  then show ?thesis using g by (simp add: new_etag_def etag_part_qty_def)
qed

section \<open>Submitting every part\<close>

lemma list_index_length: "length ys = length xs \<Longrightarrow> list_index ys i = list_index xs i"
  by (simp add: list_index_def)

lemma add_digest_stores:
  assumes "add_digest p d1 e = (Inr (), e1)"
  shows "list_getitem (md5_digests e1) (number p - 1) = Inr (Some d1)"
proof -
  let ?ds = "md5_digests e"
  let ?i = "number p - 1"
  obtain j where j: "list_index ?ds ?i = Inr j"
    using assms by (cases "list_index ?ds ?i") (simp_all add: add_digest_def list_getitem_def)
  have jl: "j < length ?ds" using j by (rule list_index_less)
  have none: "?ds ! j = None"
    using assms j by (cases "?ds ! j") (simp_all add: add_digest_def list_getitem_def)
  have "update_index (e\<lparr>md5_digests := ?ds[j := Some d1]\<rparr>) = (Inr (), e1)"
    using assms j none by (simp add: add_digest_def list_getitem_def list_setitem_def)
  then have "md5_digests e1 = ?ds[j := Some d1]"
    using update_index_keeps[of "e\<lparr>md5_digests := ?ds[j := Some d1]\<rparr>"] by simp
  moreover have "list_index (?ds[j := Some d1]) ?i = Inr j"
    using j list_index_length[of "?ds[j := Some d1]" ?ds ?i] by simp
  ultimately show ?thesis using jl by (simp add: list_getitem_def)
qed

lemma three_parts_submit_second:
  "add_digest \<lparr>number = 2, offset = 67108864, size_p = 67108864\<rparr> [2]
      \<lparr>part_gen = \<lparr>part_qty = 3, initial_part_size = 67108864, final_part_size = 1\<rparr>,
       md5_digests = [None, None, None], next_index = 0\<rparr> =
     (Inr (),
      \<lparr>part_gen = \<lparr>part_qty = 3, initial_part_size = 67108864, final_part_size = 1\<rparr>,
       md5_digests = [None, Some [2], None], next_index = 0\<rparr>)"
  by (simp add: add_digest_def etag_part_qty_def list_getitem_def list_setitem_def
      list_index_def update_index.simps)

lemma add_digest_in_range:
  assumes "wf_etag e" "1 \<le> number p" "number p \<le> etag_part_qty e"
    and "md5_digests e ! nat (number p - 1) = None"
  shows "add_digest p d e =
           (Inr (), e\<lparr>md5_digests := (md5_digests e)[nat (number p - 1) := Some d],
                      next_index := int (filled_prefix
                        ((md5_digests e)[nat (number p - 1) := Some d]))\<rparr>)"
proof -
  let ?ds = "md5_digests e"
  have len: "length ?ds = nat (etag_part_qty e)" using assms(1) by (simp add: wf_etag_def)
  have nn: "0 \<le> number p - 1" and lt: "nat (number p - 1) < length ?ds"
    using assms(2,3) len by simp_all
  have get: "list_getitem ?ds (number p - 1) = Inr None"
    using list_getitem_nonneg[OF nn lt] assms(4) by simp
  have set: "list_setitem ?ds (number p - 1) (Some d) = Inr (?ds[nat (number p - 1) := Some d])"
    using nn lt by (rule list_setitem_nonneg)
  show ?thesis
    unfolding add_digest_def Let_def get set
    by (simp only: sum.case option.case store_then_update[OF assms(1) lt])
qed

lemma submit_all_slots:
  assumes "wf_etag e" "distinct (map number ps)"
    and "\<forall>p \<in> set ps. 1 \<le> number p \<and> number p \<le> etag_part_qty e \<and>
           md5_digests e ! nat (number p - 1) = None"
  shows "\<exists>e'. submit_all dg ps e = (Inr (), e') \<and> wf_etag e' \<and> part_gen e' = part_gen e \<and>
           length (md5_digests e') = length (md5_digests e) \<and>
           (\<forall>k < length (md5_digests e).
              md5_digests e' ! k =
                (if int k + 1 \<in> number ` set ps then Some (dg (int k + 1))
                 else md5_digests e ! k))"
  using assms
proof (induction ps arbitrary: e)
  case Nil
  then show ?case by simp
next
  case (Cons p ps)
  let ?ds = "md5_digests e"
  let ?j = "nat (number p - 1)"
  let ?e1 = "e\<lparr>md5_digests := ?ds[?j := Some (dg (number p))],
                next_index := int (filled_prefix (?ds[?j := Some (dg (number p))]))\<rparr>"
  have p: "1 \<le> number p" "number p \<le> etag_part_qty e" "?ds ! ?j = None"
    using Cons.prems(3) by simp_all
  have step: "add_digest p (dg (number p)) e = (Inr (), ?e1)"
    using add_digest_in_range[OF Cons.prems(1) p] .
  have wf1: "wf_etag ?e1" using Cons.prems(1) by (rule wf_store)
  have d1: "distinct (map number ps)" using Cons.prems(2) by simp
  have rest: "\<forall>q \<in> set ps. 1 \<le> number q \<and> number q \<le> etag_part_qty ?e1 \<and>
           md5_digests ?e1 ! nat (number q - 1) = None"
  proof
    fix q assume q: "q \<in> set ps"
    then have "number q \<in> set (map number ps)" by simp
    moreover have "number p \<notin> set (map number ps)" using Cons.prems(2) by simp
    ultimately have "number q \<noteq> number p" by metis
    moreover have "1 \<le> number q" "number q \<le> etag_part_qty e"
      "?ds ! nat (number q - 1) = None" using Cons.prems(3) q by simp_all
    ultimately show "1 \<le> number q \<and> number q \<le> etag_part_qty ?e1 \<and>
           md5_digests ?e1 ! nat (number q - 1) = None"
      using p by (simp add: etag_part_qty_def nth_list_update)
  qed
  obtain e' where e': "submit_all dg ps ?e1 = (Inr (), e')" "wf_etag e'"
      "part_gen e' = part_gen ?e1" "length (md5_digests e') = length (md5_digests ?e1)"
      "\<forall>k < length (md5_digests ?e1).
              md5_digests e' ! k =
                (if int k + 1 \<in> number ` set ps then Some (dg (int k + 1))
                 else md5_digests ?e1 ! k)"
    using Cons.IH[OF wf1 d1 rest] by blast
  have slots: "md5_digests e' ! k =
                (if int k + 1 \<in> number ` set (p # ps) then Some (dg (int k + 1))
                 else ?ds ! k)" if k: "k < length ?ds" for k
  proof (cases "k = ?j")
    case True
    then have kp: "int k + 1 = number p" using p(1) by simp
    then have "int k + 1 \<notin> number ` set ps" using Cons.prems(2) by auto
    then show ?thesis using e'(5) k True kp by simp
  next
    case False
    then have "int k + 1 \<noteq> number p" using p(1) by auto
    then show ?thesis using e'(5) k False by simp
  qed
  show ?case
    using step e' slots by (intro exI[of _ e']) simp
qed

lemma submit_permutation:
  assumes "etag_init s = Inr e0" "mset (map number ps) = mset [1 .. etag_part_qty e0]"
  shows "fst (submit_all dg ps e0) = Inr () \<and>
         as_str H (snd (submit_all dg ps e0)) =
           Inr (hexdigest (H (concat (map dg [1 .. etag_part_qty e0]))) @ ''-'' @
                str_nat (nat (etag_part_qty e0)))"
proof -
  let ?n = "etag_part_qty e0"
  have wf0: "wf_etag e0" using assms(1) by (rule etag_init_wf)
  then have len0: "length (md5_digests e0) = nat ?n" by (simp add: wf_etag_def)
  have empty: "md5_digests e0 = replicate (nat ?n) None"
    using assms(1) by (auto simp: etag_init_def new_etag_def etag_part_qty_def
        split: sum.splits if_splits)
  have nums: "set (map number ps) = set [1 .. ?n]" using assms(2) by (rule mset_eq_setD)
  have dist: "distinct (map number ps)"
    using mset_eq_imp_distinct_iff[OF assms(2)] by simp
  have range: "\<forall>p \<in> set ps. 1 \<le> number p \<and> number p \<le> ?n \<and>
           md5_digests e0 ! nat (number p - 1) = None"
  proof
    fix p assume "p \<in> set ps"
    then have "number p \<in> set [1 .. ?n]" using nums by auto
    then show "1 \<le> number p \<and> number p \<le> ?n \<and> md5_digests e0 ! nat (number p - 1) = None"
      by (simp add: empty)
  qed
  obtain e' where e': "submit_all dg ps e0 = (Inr (), e')" "wf_etag e'"
      "part_gen e' = part_gen e0" "length (md5_digests e') = length (md5_digests e0)"
      "\<forall>k < length (md5_digests e0).
              md5_digests e' ! k =
                (if int k + 1 \<in> number ` set ps then Some (dg (int k + 1))
                 else md5_digests e0 ! k)"
    using submit_all_slots[OF wf0 dist range] by blast
  have slots: "md5_digests e' = map (\<lambda>k. Some (dg k)) [1 .. ?n]"
  proof (rule nth_equalityI)
    show "length (md5_digests e') = length (map (\<lambda>k. Some (dg k)) [1 .. ?n])"
      using e'(4) len0 by simp
    fix k assume "k < length (md5_digests e')"
    then have k: "k < nat ?n" using e'(4) len0 by simp
    then have "int k + 1 \<in> set [1 .. ?n]" by simp
    then have "int k + 1 \<in> number ` set ps" using nums by simp
    then have "md5_digests e' ! k = Some (dg (int k + 1))" using e'(5) k len0 by simp
    moreover have "[1 .. ?n] ! k = 1 + int k" using k by simp
    ultimately show "md5_digests e' ! k = map (\<lambda>k. Some (dg k)) [1 .. ?n] ! k"
      using k by (simp add: add.commute)
  qed
  then have full: "\<forall>d \<in> set (md5_digests e'). d \<noteq> None" by auto
  then have "complete e'" using wf_complete_iff[OF e'(2)] by simp
  then have "as_str H e' =
           Inr (hexdigest (H (concat (map the (md5_digests e')))) @ ''-'' @
                str_nat (length (md5_digests e')))"
    using e'(2) by (intro as_str_complete)
  moreover have "map the (md5_digests e') = map dg [1 .. ?n]" by (simp add: slots comp_def)
  moreover have "length (md5_digests e') = nat ?n" using e'(4) len0 by simp
  ultimately show ?thesis using e'(1) by simp
qed

section \<open>Claims\<close>

text \<open>
  Claim C1 at file size 0. The plan has \<open>part_qty = 0\<close>, outside \<open>[1, 10000]\<close>; iterating it
  yields one part, numbered 0, of 64 MiB, so the part sizes sum to 64 MiB and not to 0, and
  the parts do not tile the empty range \<open>[0, 0)\<close>. The class's own \<^verbatim>\<open>from_file\<close>
  fails on an empty file with the \<^verbatim>\<open>RuntimeError\<close> of \<^verbatim>\<open>update\<close>: the
  accumulator has no slot, is complete at once, and the iteration still hands it a part.
\<close>

theorem zero_size_plan_breaks_partition:
  "for_file_size 0 =
     Inr \<lparr>part_qty = 0, initial_part_size = 67108864, final_part_size = 67108864\<rparr> \<and>
   iter \<lparr>part_qty = 0, initial_part_size = 67108864, final_part_size = 67108864\<rparr> =
     [\<lparr>number = 0, offset = 0, size_p = 67108864\<rparr>] \<and>
   sum_list (map size_p
     (iter \<lparr>part_qty = 0, initial_part_size = 67108864, final_part_size = 67108864\<rparr>)) = 67108864 \<and>
   \<not> covers 0 (iter \<lparr>part_qty = 0, initial_part_size = 67108864, final_part_size = 67108864\<rparr>) 0 \<and>
   from_file H [] = Inl RuntimeError"
  by (simp add: for_file_size_zero iter_zero_plan from_file_def etag_init_zero get_parts_def
      file_read_def update_def complete_def etag_part_qty_def)

text \<open>
  For every file size from 1 byte to 5 TiB the plan is as C1 says: between 1 and 10000 parts,
  numbered \<open>1, 2, \<dots>, part_qty\<close> in the order of iteration, tiling \<open>[0, file_size)\<close> with
  sizes that sum to the file size.
\<close>

lemma plan_partitions_positive_size:
  assumes "1 \<le> s" "s \<le> tb 5"
  shows "\<exists>g. for_file_size s = Inr g \<and> 1 \<le> part_qty g \<and> part_qty g \<le> MAX_PARTS \<and>
           sum_list (map size_p (iter g)) = s \<and> map number (iter g) = [1 .. part_qty g] \<and>
           covers 0 (iter g) s"
proof -
  obtain g where g: "for_file_size s = Inr g" "1 \<le> part_qty g" "part_qty g \<le> 10000"
      "0 < initial_part_size g" "0 < final_part_size g"
      "(part_qty g - 1) * initial_part_size g + final_part_size g = s"
    using for_file_size_plan[OF assms] by blast
  show ?thesis
    using g iter_plan[OF g(2,4,5)] by (intro exI[of _ g]) (simp add: MAX_PARTS_def)
qed

text \<open>
  Claim C2. On a constructed accumulator with \<open>n\<close> parts, submitting the digest \<open>dg k\<close> for
  every part number \<open>k\<close> through \<^verbatim>\<open>add_digest\<close>, in the order of any list \<open>ps\<close> of parts
  whose numbers are a permutation of \<open>1, \<dots>, n\<close>, raises nothing, and \<^verbatim>\<open>as_str\<close> then
  returns what it returns after submitting in ascending order \<open>qs\<close>: the text for the digests
  concatenated by part number, whatever the order of submission was.
\<close>

theorem submission_order_irrelevant:
  assumes "etag_init s = Inr e0" "mset (map number ps) = mset [1 .. etag_part_qty e0]"
    and "map number qs = [1 .. etag_part_qty e0]"
  shows "fst (submit_all dg ps e0) = Inr () \<and> fst (submit_all dg qs e0) = Inr () \<and>
         as_str H (snd (submit_all dg ps e0)) = as_str H (snd (submit_all dg qs e0)) \<and>
         as_str H (snd (submit_all dg ps e0)) =
           Inr (hexdigest (H (concat (map dg [1 .. etag_part_qty e0]))) @ ''-'' @
                str_nat (nat (etag_part_qty e0)))"
proof -
  have "mset (map number qs) = mset [1 .. etag_part_qty e0]" using assms(3) by simp
  then show ?thesis
    using submit_permutation[OF assms(1,2), of dg H] submit_permutation[OF assms(1), of qs dg H]
    by simp
qed

theorem submission_order_irrelevant_witness:
  "etag_init 134217729 =
     Inr \<lparr>part_gen = \<lparr>part_qty = 3, initial_part_size = 67108864, final_part_size = 1\<rparr>,
          md5_digests = [None, None, None], next_index = 0\<rparr> \<and>
   mset (map number
     [\<lparr>number = 3, offset = 134217728, size_p = 1\<rparr>,
      \<lparr>number = 1, offset = 0, size_p = 67108864\<rparr>,
      \<lparr>number = 2, offset = 67108864, size_p = 67108864\<rparr>]) =
     mset [1 .. etag_part_qty
       \<lparr>part_gen = \<lparr>part_qty = 3, initial_part_size = 67108864, final_part_size = 1\<rparr>,
        md5_digests = [None, None, None], next_index = 0\<rparr>] \<and>
   map number
     [\<lparr>number = 1, offset = 0, size_p = 67108864\<rparr>,
      \<lparr>number = 2, offset = 67108864, size_p = 67108864\<rparr>,
      \<lparr>number = 3, offset = 134217728, size_p = 1\<rparr>] =
     [1 .. etag_part_qty
       \<lparr>part_gen = \<lparr>part_qty = 3, initial_part_size = 67108864, final_part_size = 1\<rparr>,
        md5_digests = [None, None, None], next_index = 0\<rparr>] \<and>
   as_str (\<lambda>b. b) (snd (submit_all (\<lambda>k. [word_of_int k])
     [\<lparr>number = 3, offset = 134217728, size_p = 1\<rparr>,
      \<lparr>number = 1, offset = 0, size_p = 67108864\<rparr>,
      \<lparr>number = 2, offset = 67108864, size_p = 67108864\<rparr>]
     \<lparr>part_gen = \<lparr>part_qty = 3, initial_part_size = 67108864, final_part_size = 1\<rparr>,
      md5_digests = [None, None, None], next_index = 0\<rparr>)) =
   as_str (\<lambda>b. b) (snd (submit_all (\<lambda>k. [word_of_int k])
     [\<lparr>number = 1, offset = 0, size_p = 67108864\<rparr>,
      \<lparr>number = 2, offset = 67108864, size_p = 67108864\<rparr>,
      \<lparr>number = 3, offset = 134217728, size_p = 1\<rparr>]
     \<lparr>part_gen = \<lparr>part_qty = 3, initial_part_size = 67108864, final_part_size = 1\<rparr>,
      md5_digests = [None, None, None], next_index = 0\<rparr>)) \<and>
   as_str (\<lambda>b. b) (snd (submit_all (\<lambda>k. [word_of_int k])
     [\<lparr>number = 3, offset = 134217728, size_p = 1\<rparr>,
      \<lparr>number = 1, offset = 0, size_p = 67108864\<rparr>,
      \<lparr>number = 2, offset = 67108864, size_p = 67108864\<rparr>]
     \<lparr>part_gen = \<lparr>part_qty = 3, initial_part_size = 67108864, final_part_size = 1\<rparr>,
      md5_digests = [None, None, None], next_index = 0\<rparr>)) = Inr ''010203-3''"
proof -
  let ?e0 = "\<lparr>part_gen = \<lparr>part_qty = 3, initial_part_size = 67108864, final_part_size = 1\<rparr>,
          md5_digests = [None, None, None :: bytes option], next_index = 0\<rparr>"
  have n: "etag_part_qty ?e0 = 3" by (simp add: etag_part_qty_def)
  have u: "[1 .. 3 :: int] = [1, 2, 3]" by (simp add: upto_rec1)
  have h2: "mset (map number
     [\<lparr>number = 3, offset = 134217728, size_p = 1\<rparr>,
      \<lparr>number = 1, offset = 0, size_p = 67108864\<rparr>,
      \<lparr>number = 2, offset = 67108864, size_p = 67108864\<rparr>]) = mset [1 .. etag_part_qty ?e0]"
    unfolding n u by simp
  have h3: "map number
     [\<lparr>number = 1, offset = 0, size_p = 67108864\<rparr>,
      \<lparr>number = 2, offset = 67108864, size_p = 67108864\<rparr>,
      \<lparr>number = 3, offset = 134217728, size_p = 1\<rparr>] = [1 .. etag_part_qty ?e0]"
    unfolding n u by simp
  have txt3: "hexdigest (concat (map (\<lambda>k. [word_of_int k]) [1, 2, 3 :: int])) @ ''-'' @
      str_nat (nat 3) = ''010203-3''"
    by code_simp
  show ?thesis
    using submission_order_irrelevant[OF etag_init_three_parts h2 h3,
        of "\<lambda>k. [word_of_int k]" "\<lambda>b. b"] etag_init_three_parts h2 h3
    unfolding n u txt3 by blast
qed

text \<open>
  Claim C3. In every state reached from a constructed accumulator by a sequence of calls to
  \<^verbatim>\<open>add_digest\<close>, \<^verbatim>\<open>add_next_digest\<close> and \<^verbatim>\<open>update\<close>, the calls that raise
  included, \<open>next_index\<close> is the number of slots filled without a gap from slot 0, there are
  \<open>part_qty\<close> slots, no slot below \<open>next_index\<close> is empty, and \<open>complete\<close> holds exactly
  when every slot holds a digest.
\<close>

theorem reachable_next_index_invariant:
  assumes "etag_init s = Inr e0" and "e = foldl (perform H) e0 ops"
  shows "next_index e = int (filled_prefix (md5_digests e)) \<and>
         length (md5_digests e) = nat (etag_part_qty e) \<and>
         (\<forall>j < nat (next_index e). md5_digests e ! j \<noteq> None) \<and>
         (complete e = (\<forall>d \<in> set (md5_digests e). d \<noteq> None))"
proof -
  have wf: "wf_etag e" using assms etag_init_wf performs_wf by simp
  then have ni: "next_index e = int (filled_prefix (md5_digests e))"
    and len: "length (md5_digests e) = nat (etag_part_qty e)"
    by (simp_all add: wf_etag_def)
  have "\<forall>j < nat (next_index e). md5_digests e ! j \<noteq> None"
    using filled_prefix_filled[of _ "md5_digests e"] by (simp add: ni)
  then show ?thesis using ni len wf_complete_iff[OF wf] by simp
qed

theorem reachable_next_index_invariant_witness:
  "etag_init 134217729 =
     Inr \<lparr>part_gen = \<lparr>part_qty = 3, initial_part_size = 67108864, final_part_size = 1\<rparr>,
          md5_digests = [None, None, None], next_index = 0\<rparr> \<and>
   next_index \<lparr>part_gen = \<lparr>part_qty = 3, initial_part_size = 67108864, final_part_size = 1\<rparr>,
      md5_digests = [Some [1], Some [2], None :: bytes option], next_index = 2\<rparr> =
     int (filled_prefix [Some [1], Some [2], None :: bytes option]) \<and>
   \<not> complete \<lparr>part_gen = \<lparr>part_qty = 3, initial_part_size = 67108864, final_part_size = 1\<rparr>,
      md5_digests = [Some [1], Some [2], None], next_index = 2\<rparr>"
  using reachable_next_index_invariant[OF etag_init_three_parts three_parts_run[symmetric]]
  by (simp add: etag_init_three_parts)

text \<open>
  Claim C4. When the slot that \<^verbatim>\<open>add_digest\<close> addresses for a part already holds a
  digest, the call raises \<^verbatim>\<open>RuntimeError\<close>, whatever digest is submitted (the stored
  one again, too), and leaves the accumulator as it was. A call that returned normally has
  filled that slot, so a second call for the same part is such a call.
\<close>

theorem add_digest_twice_rejected:
  "(list_getitem (md5_digests e) (number p - 1) = Inr (Some d0) \<longrightarrow>
      add_digest p d e = (Inl RuntimeError, e)) \<and>
   (add_digest p d1 e = (Inr (), e1) \<longrightarrow> add_digest p d e1 = (Inl RuntimeError, e1))"
proof -
  have stored: "add_digest p d e = (Inl RuntimeError, e)"
    if "list_getitem (md5_digests e) (number p - 1) = Inr (Some d0)" for e d0
    using that by (simp add: add_digest_def)
  show ?thesis using stored add_digest_stores by blast
qed

theorem add_digest_twice_rejected_witness:
  "list_getitem (md5_digests
      \<lparr>part_gen = \<lparr>part_qty = 3, initial_part_size = 67108864, final_part_size = 1\<rparr>,
       md5_digests = [None, Some [2], None], next_index = 0\<rparr>)
     (number \<lparr>number = 2, offset = 67108864, size_p = 67108864\<rparr> - 1) = Inr (Some [2]) \<and>
   add_digest \<lparr>number = 2, offset = 67108864, size_p = 67108864\<rparr> [2]
      \<lparr>part_gen = \<lparr>part_qty = 3, initial_part_size = 67108864, final_part_size = 1\<rparr>,
       md5_digests = [None, None, None], next_index = 0\<rparr> =
     (Inr (),
      \<lparr>part_gen = \<lparr>part_qty = 3, initial_part_size = 67108864, final_part_size = 1\<rparr>,
       md5_digests = [None, Some [2], None], next_index = 0\<rparr>) \<and>
   add_digest \<lparr>number = 2, offset = 67108864, size_p = 67108864\<rparr> [2]
      \<lparr>part_gen = \<lparr>part_qty = 3, initial_part_size = 67108864, final_part_size = 1\<rparr>,
       md5_digests = [None, Some [2], None], next_index = 0\<rparr> =
     (Inl RuntimeError,
      \<lparr>part_gen = \<lparr>part_qty = 3, initial_part_size = 67108864, final_part_size = 1\<rparr>,
       md5_digests = [None, Some [2], None], next_index = 0\<rparr>) \<and>
   add_digest \<lparr>number = 2, offset = 67108864, size_p = 67108864\<rparr> [9]
      \<lparr>part_gen = \<lparr>part_qty = 3, initial_part_size = 67108864, final_part_size = 1\<rparr>,
       md5_digests = [None, Some [2], None], next_index = 0\<rparr> =
     (Inl RuntimeError,
      \<lparr>part_gen = \<lparr>part_qty = 3, initial_part_size = 67108864, final_part_size = 1\<rparr>,
       md5_digests = [None, Some [2], None], next_index = 0\<rparr>)"
proof -
  have h: "list_getitem (md5_digests
      \<lparr>part_gen = \<lparr>part_qty = 3, initial_part_size = 67108864, final_part_size = 1\<rparr>,
       md5_digests = [None, Some [2], None], next_index = 0\<rparr>)
     (number \<lparr>number = 2, offset = 67108864, size_p = 67108864\<rparr> - 1) = Inr (Some [2])"
    by (simp add: list_getitem_def list_index_def)
  show ?thesis
    using h three_parts_submit_second
      add_digest_twice_rejected[of
        "\<lparr>part_gen = \<lparr>part_qty = 3, initial_part_size = 67108864, final_part_size = 1\<rparr>,
          md5_digests = [None, Some [2], None], next_index = 0\<rparr>"
        "\<lparr>number = 2, offset = 67108864, size_p = 67108864\<rparr>" "[2]" "[9]"]
      add_digest_twice_rejected[of
        "\<lparr>part_gen = \<lparr>part_qty = 3, initial_part_size = 67108864, final_part_size = 1\<rparr>,
          md5_digests = [None, None, None], next_index = 0\<rparr>"
        "\<lparr>number = 2, offset = 67108864, size_p = 67108864\<rparr>" "[2]" "[2]" "[2]"
        "\<lparr>part_gen = \<lparr>part_qty = 3, initial_part_size = 67108864, final_part_size = 1\<rparr>,
          md5_digests = [None, Some [2], None], next_index = 0\<rparr>"]
    by blast
qed

text \<open>
  Claim C5. On an accumulator reached from construction, with a hash \<open>H\<close> whose digests are
  16 bytes long, \<^verbatim>\<open>as_str\<close> raises its \<^verbatim>\<open>ValueError\<close> exactly when the accumulator
  is not complete; when it is complete the call returns the lowercase hexadecimal text of \<open>H\<close>
  applied to the slots' digests concatenated in slot order, a hyphen, and the part count in
  decimal; and every text it returns matches \<^verbatim>\<open>[0-9a-f]{32}-[0-9]{1,5}\<close> and has at most
  38 characters. Read back, the first 32 characters of the text are the 16 bytes of that hash,
  character 32 is the hyphen, and the rest is a decimal numeral without a leading zero whose
  value is the part count, which is the number of slots.
\<close>

theorem as_str_spec:
  assumes "0 \<le> s" "etag_init s = Inr e0" "e = foldl (perform H) e0 ops"
    and "\<forall>b. length (H b) = 16"
  shows "(as_str H e = Inl ValueError) = (\<not> complete e) \<and>
         (complete e \<longrightarrow>
            as_str H e =
              Inr (hexdigest (H (concat (map the (md5_digests e)))) @ ''-'' @
                   str_nat (nat (etag_part_qty e)))) \<and>
         (\<forall>etag. as_str H e = Inr etag \<longrightarrow> matches_REGEX etag \<and> length etag \<le> MAX_STR_LENGTH) \<and>
         (\<forall>etag. as_str H e = Inr etag \<longrightarrow>
            bytes_of_hex (take 32 etag) = H (concat (map the (md5_digests e))) \<and>
            etag ! 32 = CHR ''-'' \<and>
            decimal_value (drop 33 etag) = nat (etag_part_qty e) \<and>
            length (md5_digests e) = nat (etag_part_qty e) \<and>
            (hd (drop 33 etag) = CHR ''0'' \<longrightarrow> etag_part_qty e = 0))"
proof -
  have wf: "wf_etag e" using assms(2,3) etag_init_wf performs_wf by simp
  then have len: "length (md5_digests e) = nat (etag_part_qty e)"
    and nonneg: "0 \<le> etag_part_qty e" by (simp_all add: wf_etag_def)
  have "etag_part_qty e = etag_part_qty e0"
    by (simp add: etag_part_qty_def assms(3) performs_part_gen)
  then have qty: "nat (etag_part_qty e) \<le> 10000"
    using etag_init_part_qty[OF assms(1,2)] by linarith
  have h16: "length (H (concat (map the (md5_digests e)))) = 16" using assms(4) by simp
  have val: "as_str H e =
      Inr (hexdigest (H (concat (map the (md5_digests e)))) @ ''-'' @
           str_nat (nat (etag_part_qty e)))" if "complete e"
    using as_str_complete[OF wf that] len by simp
  have shape: "etag = hexdigest (H (concat (map the (md5_digests e)))) @ ''-'' @
           str_nat (nat (etag_part_qty e))" if "as_str H e = Inr etag" for etag
  proof -
    have "complete e" using that as_str_raises_iff[of H e] by (auto simp: as_str_def split: if_splits)
    then show ?thesis using val that by simp
  qed
  have fmt: "matches_REGEX etag \<and> length etag \<le> MAX_STR_LENGTH" if "as_str H e = Inr etag" for etag
    unfolding shape[OF that] using etag_text_format[OF h16 qty] .
  have reads: "bytes_of_hex (take 32 etag) = H (concat (map the (md5_digests e))) \<and>
            etag ! 32 = CHR ''-'' \<and>
            decimal_value (drop 33 etag) = nat (etag_part_qty e) \<and>
            length (md5_digests e) = nat (etag_part_qty e) \<and>
            (hd (drop 33 etag) = CHR ''0'' \<longrightarrow> etag_part_qty e = 0)"
    if "as_str H e = Inr etag" for etag
  proof -
    note r = etag_text_reads[OF h16, of "nat (etag_part_qty e)", folded shape[OF that]]
    note r1 = r[THEN conjunct1]
      and r2 = r[THEN conjunct2, THEN conjunct1]
      and r3 = r[THEN conjunct2, THEN conjunct2, THEN conjunct1]
      and r4 = r[THEN conjunct2, THEN conjunct2, THEN conjunct2]
    have z: "nat (etag_part_qty e) = 0 \<longrightarrow> etag_part_qty e = 0" using nonneg by linarith
    have r5: "hd (drop 33 etag) = CHR ''0'' \<longrightarrow> etag_part_qty e = 0"
    proof
      assume p: "hd (drop 33 etag) = CHR ''0''"
      have "nat (etag_part_qty e) = 0" using r4 p by (rule mp)
      with z show "etag_part_qty e = 0" by (rule mp)
    qed
    show ?thesis by (rule conjI[OF r1 conjI[OF r2 conjI[OF r3 conjI[OF len r5]]]])
  qed
  have A: "(as_str H e = Inl ValueError) = (\<not> complete e)" by (rule as_str_raises_iff)
  have B: "complete e \<longrightarrow>
            as_str H e =
              Inr (hexdigest (H (concat (map the (md5_digests e)))) @ ''-'' @
                   str_nat (nat (etag_part_qty e)))"
    by (rule impI) (rule val)
  have C: "\<forall>etag. as_str H e = Inr etag \<longrightarrow>
             matches_REGEX etag \<and> length etag \<le> MAX_STR_LENGTH"
    by (intro allI impI) (rule fmt)
  have D: "\<forall>etag. as_str H e = Inr etag \<longrightarrow>
            bytes_of_hex (take 32 etag) = H (concat (map the (md5_digests e))) \<and>
            etag ! 32 = CHR ''-'' \<and>
            decimal_value (drop 33 etag) = nat (etag_part_qty e) \<and>
            length (md5_digests e) = nat (etag_part_qty e) \<and>
            (hd (drop 33 etag) = CHR ''0'' \<longrightarrow> etag_part_qty e = 0)"
    by (intro allI impI) (rule reads)
  show ?thesis by (rule conjI[OF A conjI[OF B conjI[OF C D]]])
qed

theorem as_str_spec_witness:
  "(0::int) \<le> 738197509 \<and>
   etag_init 738197509 =
     Inr \<lparr>part_gen = \<lparr>part_qty = 12, initial_part_size = 67108864, final_part_size = 5\<rparr>,
      md5_digests = replicate 12 None, next_index = 0\<rparr> \<and>
   (\<forall>b. length ((\<lambda>b. take 16 (b @ replicate 16 0)) (b :: bytes) :: bytes) = 16) \<and>
   as_str (\<lambda>b. take 16 (b @ replicate 16 0))
     \<lparr>part_gen = \<lparr>part_qty = 12, initial_part_size = 67108864, final_part_size = 5\<rparr>,
      md5_digests = replicate 12 None, next_index = 0\<rparr> = Inl ValueError \<and>
   complete (foldl (perform (\<lambda>b. take 16 (b @ replicate 16 0)))
     \<lparr>part_gen = \<lparr>part_qty = 12, initial_part_size = 67108864, final_part_size = 5\<rparr>,
      md5_digests = replicate 12 None, next_index = 0\<rparr>
     [AddDigest \<lparr>number = 12, offset = 738197504, size_p = 5\<rparr> [12],
      AddDigest \<lparr>number = 1, offset = 0, size_p = 67108864\<rparr> [1],
      AddDigest \<lparr>number = 3, offset = 134217728, size_p = 67108864\<rparr> [3],
      AddDigest \<lparr>number = 2, offset = 67108864, size_p = 67108864\<rparr> [2],
      AddDigest \<lparr>number = 4, offset = 201326592, size_p = 67108864\<rparr> [4],
      AddDigest \<lparr>number = 5, offset = 268435456, size_p = 67108864\<rparr> [5],
      AddDigest \<lparr>number = 6, offset = 335544320, size_p = 67108864\<rparr> [6],
      AddDigest \<lparr>number = 7, offset = 402653184, size_p = 67108864\<rparr> [7],
      AddDigest \<lparr>number = 8, offset = 469762048, size_p = 67108864\<rparr> [8],
      AddDigest \<lparr>number = 9, offset = 536870912, size_p = 67108864\<rparr> [9],
      AddDigest \<lparr>number = 10, offset = 603979776, size_p = 67108864\<rparr> [10],
      AddDigest \<lparr>number = 11, offset = 671088640, size_p = 67108864\<rparr> [11]]) \<and>
   as_str (\<lambda>b. take 16 (b @ replicate 16 0)) (foldl (perform (\<lambda>b. take 16 (b @ replicate 16 0)))
     \<lparr>part_gen = \<lparr>part_qty = 12, initial_part_size = 67108864, final_part_size = 5\<rparr>,
      md5_digests = replicate 12 None, next_index = 0\<rparr>
     [AddDigest \<lparr>number = 12, offset = 738197504, size_p = 5\<rparr> [12],
      AddDigest \<lparr>number = 1, offset = 0, size_p = 67108864\<rparr> [1],
      AddDigest \<lparr>number = 3, offset = 134217728, size_p = 67108864\<rparr> [3],
      AddDigest \<lparr>number = 2, offset = 67108864, size_p = 67108864\<rparr> [2],
      AddDigest \<lparr>number = 4, offset = 201326592, size_p = 67108864\<rparr> [4],
      AddDigest \<lparr>number = 5, offset = 268435456, size_p = 67108864\<rparr> [5],
      AddDigest \<lparr>number = 6, offset = 335544320, size_p = 67108864\<rparr> [6],
      AddDigest \<lparr>number = 7, offset = 402653184, size_p = 67108864\<rparr> [7],
      AddDigest \<lparr>number = 8, offset = 469762048, size_p = 67108864\<rparr> [8],
      AddDigest \<lparr>number = 9, offset = 536870912, size_p = 67108864\<rparr> [9],
      AddDigest \<lparr>number = 10, offset = 603979776, size_p = 67108864\<rparr> [10],
      AddDigest \<lparr>number = 11, offset = 671088640, size_p = 67108864\<rparr> [11]]) =
     Inr ''0102030405060708090a0b0c00000000-12'' \<and>
   matches_REGEX ''0102030405060708090a0b0c00000000-12'' \<and>
   length ''0102030405060708090a0b0c00000000-12'' \<le> MAX_STR_LENGTH \<and>
   bytes_of_hex (take 32 ''0102030405060708090a0b0c00000000-12'') =
     [1, 2, 3, 4, 5, 6, 7, 8, 9, 10, 11, 12, 0, 0, 0, 0] \<and>
   decimal_value (drop 33 ''0102030405060708090a0b0c00000000-12'') = 12"
proof -
  have h0: "(0::int) \<le> 738197509" by simp
  have h3: "\<forall>b. length ((\<lambda>b. take 16 (b @ replicate 16 0)) (b :: bytes) :: bytes) = 16" by (simp add: min_def)
  have start: "\<lparr>part_gen = \<lparr>part_qty = 12, initial_part_size = 67108864, final_part_size = 5\<rparr>,
      md5_digests = replicate 12 None, next_index = 0\<rparr> =
    foldl (perform (\<lambda>b. take 16 (b @ replicate 16 0)))
      \<lparr>part_gen = \<lparr>part_qty = 12, initial_part_size = 67108864, final_part_size = 5\<rparr>,
      md5_digests = replicate 12 None, next_index = 0\<rparr> []" by simp
  note fresh = as_str_spec[OF h0 etag_init_twelve_parts start h3]
  note full = as_str_spec[OF h0 etag_init_twelve_parts twelve_parts_run[symmetric] h3]
  have c0: "as_str (\<lambda>b. take 16 (b @ replicate 16 0))
     \<lparr>part_gen = \<lparr>part_qty = 12, initial_part_size = 67108864, final_part_size = 5\<rparr>,
      md5_digests = replicate 12 None, next_index = 0\<rparr> = Inl ValueError"
    using fresh[THEN conjunct1] twelve_parts_fresh_incomplete by (rule iffD2)
  have c1: "complete \<lparr>part_gen = \<lparr>part_qty = 12, initial_part_size = 67108864, final_part_size = 5\<rparr>,
      md5_digests = [Some [1], Some [2], Some [3], Some [4], Some [5], Some [6], Some [7], Some [8], Some [9], Some [10], Some [11], Some [12]], next_index = 12\<rparr>"
    by (simp add: complete_def etag_part_qty_def)
  have blob: "(\<lambda>b. take 16 (b @ replicate 16 0)) (concat (map the (md5_digests
     \<lparr>part_gen = \<lparr>part_qty = 12, initial_part_size = 67108864, final_part_size = 5\<rparr>,
      md5_digests = [Some [1], Some [2], Some [3], Some [4], Some [5], Some [6], Some [7], Some [8], Some [9], Some [10], Some [11], Some [12]], next_index = 12\<rparr>))) = [1, 2, 3, 4, 5, 6, 7, 8, 9, 10, 11, 12, 0, 0, 0, 0 :: 8 word]"
    by code_simp
  have q: "nat (etag_part_qty \<lparr>part_gen = \<lparr>part_qty = 12, initial_part_size = 67108864, final_part_size = 5\<rparr>,
      md5_digests = [Some [1], Some [2], Some [3], Some [4], Some [5], Some [6], Some [7], Some [8], Some [9], Some [10], Some [11], Some [12]], next_index = 12\<rparr>) = 12"
    by (simp add: etag_part_qty_def)
  note c2 = full[THEN conjunct2, THEN conjunct2, THEN conjunct1, rule_format,
      OF twelve_parts_text]
  note c3 = full[THEN conjunct2, THEN conjunct2, THEN conjunct2, rule_format,
      OF twelve_parts_text, unfolded blob q]
  show ?thesis
    unfolding twelve_parts_run
    by (intro conjI)
       (fact h0 etag_init_twelve_parts h3 c0 c1 twelve_parts_text
          c2[THEN conjunct1] c2[THEN conjunct2] c3[THEN conjunct1]
          c3[THEN conjunct2, THEN conjunct2, THEN conjunct1])+
qed

text \<open>
  Claim C6. \<^verbatim>\<open>for_file_size\<close> raises its \<^verbatim>\<open>ValueError\<close> exactly for the
  file sizes above 5 TiB, so in particular for 5 TiB + 1 byte, and then returns no plan; for
  every file size from 0 to 5 TiB it returns a plan.
\<close>

theorem for_file_size_size_check:
  "(for_file_size s = Inl ValueError) = (tb 5 < s) \<and>
   (0 \<le> s \<and> s \<le> tb 5 \<longrightarrow> (\<exists>g. for_file_size s = Inr g)) \<and>
   for_file_size (tb 5 + 1) = Inl ValueError"
  by (simp add: for_file_size_def Let_def split: prod.splits)

theorem for_file_size_size_check_witness:
  "(0::int) \<le> tb 5 \<and> tb 5 \<le> tb 5 \<and> (\<exists>g. for_file_size (tb 5) = Inr g) \<and>
   for_file_size (tb 5) \<noteq> Inl ValueError"
  using for_file_size_size_check[of "tb 5"] by (simp add: tb_def)

text \<open>
  Claim C7, as stated, fails: for file size 0 the part size the file is divided by is not
  5 MiB, and the final part size of the plan is not 5 MiB.
\<close>

theorem zero_size_clamp_counterexample:
  "\<not> (candidate_part_size 0 = mb 5 \<and>
      map_sum id final_part_size (for_file_size 0) = Inr (mb 5))"
  by (simp add: candidate_part_size_zero size_vals)

text \<open>
  Claim C7, amended. For file size 0 no clamping takes place: the part size stays at the
  64 MiB default (zero parts of 64 MiB are fewer than 10000, and 64 MiB lies between 5 MiB
  and 5 GiB), \<^verbatim>\<open>divmod(0, 64 MiB)\<close> is \<open>(0, 0)\<close>, and the remainder-is-zero branch
  gives a plan with \<open>part_qty = 0\<close> whose final and initial part sizes are both 64 MiB; the
  single-part rule does not apply, since \<open>part_qty\<close> is not 1.
\<close>

theorem zero_size_plan:
  "candidate_part_size 0 = mb 64 \<and> (0::int) div mb 64 = 0 \<and> (0::int) mod mb 64 = 0 \<and>
   for_file_size 0 =
     Inr \<lparr>part_qty = 0, initial_part_size = mb 64, final_part_size = mb 64\<rparr>"
  by (simp add: candidate_part_size_zero for_file_size_zero size_vals)

text \<open>
  Claim C8. For a plan returned by \<^verbatim>\<open>for_file_size\<close> and an index \<open>i\<close> with
  \<open>1 \<le> i \<le> part_qty\<close>, the iteration yields at least \<open>i\<close> parts and \<^verbatim>\<open>plan[i]\<close>
  returns the \<open>i\<close>-th of them, equal in number, offset and size.
\<close>

theorem getitem_matches_iter:
  "for_file_size s = Inr g \<Longrightarrow> 1 \<le> i \<Longrightarrow> i \<le> part_qty g \<Longrightarrow>
   nat (i - 1) < length (iter g) \<and> getitem g i = Inr (iter g ! nat (i - 1))"
  by (rule getitem_iter)

theorem getitem_matches_iter_witness:
  "for_file_size 134217729 =
     Inr \<lparr>part_qty = 3, initial_part_size = 67108864, final_part_size = 1\<rparr> \<and>
   (1::int) \<le> 2 \<and> 2 \<le> part_qty \<lparr>part_qty = 3, initial_part_size = 67108864, final_part_size = 1\<rparr> \<and>
   getitem \<lparr>part_qty = 3, initial_part_size = 67108864, final_part_size = 1\<rparr> 2 =
     Inr (iter \<lparr>part_qty = 3, initial_part_size = 67108864, final_part_size = 1\<rparr> ! nat (2 - 1))"
  using getitem_matches_iter[OF for_file_size_three_parts, of 2]
  by (simp add: for_file_size_three_parts)

text \<open>
  Claim C9. The accumulator constructed for file size 0 has no slot and is complete before
  any digest is submitted, and \<^verbatim>\<open>as_str\<close> returns the hexadecimal text of the hash of
  the empty byte string followed by \<open>-0\<close>.
\<close>

theorem zero_size_etag_complete:
  "etag_init 0 =
     Inr \<lparr>part_gen = \<lparr>part_qty = 0, initial_part_size = mb 64, final_part_size = mb 64\<rparr>,
          md5_digests = [], next_index = 0\<rparr> \<and>
   complete \<lparr>part_gen = \<lparr>part_qty = 0, initial_part_size = mb 64, final_part_size = mb 64\<rparr>,
          md5_digests = [], next_index = 0\<rparr> \<and>
   as_str H \<lparr>part_gen = \<lparr>part_qty = 0, initial_part_size = mb 64, final_part_size = mb 64\<rparr>,
          md5_digests = [], next_index = 0\<rparr> = Inr (hexdigest (H []) @ ''-0'')"
  by (simp add: etag_init_zero mb64_val complete_def etag_part_qty_def as_str_def str_nat.simps
      digit_char_def)

text \<open>
  Claim C10. \<^verbatim>\<open>add_digest\<close> does not check the part number: on an accumulator with at
  least one part whose last slot is empty, a part numbered 0 addresses index \<open>-1\<close>, the call
  returns normally, and the digest is stored in the last slot.
\<close>

theorem add_digest_part_zero_fills_last:
  assumes "wf_etag e" "1 \<le> etag_part_qty e" "last (md5_digests e) = None" "number p = 0"
  shows "add_digest p d e =
           (Inr (), e\<lparr>md5_digests := (md5_digests e)[length (md5_digests e) - 1 := Some d],
                      next_index := int (filled_prefix
                        ((md5_digests e)[length (md5_digests e) - 1 := Some d]))\<rparr>)"
proof -
  let ?ds = "md5_digests e"
  have len: "length ?ds = nat (etag_part_qty e)" using assms(1) by (simp add: wf_etag_def)
  then have ne: "?ds \<noteq> []" and lt: "length ?ds - 1 < length ?ds" using assms(2) by auto
  have "list_index ?ds (number p - 1) = Inr (nat (int (length ?ds) + (0 - 1)))"
    using lt by (simp add: list_index_def assms(4))
  also have "nat (int (length ?ds) + (0 - 1)) = length ?ds - 1" using lt by linarith
  finally have j: "list_index ?ds (number p - 1) = Inr (length ?ds - 1)" .
  have none: "?ds ! (length ?ds - 1) = None" using assms(3) ne by (simp add: last_conv_nth)
  have get: "list_getitem ?ds (number p - 1) = Inr None"
    using none by (simp add: list_getitem_def j)
  have set: "list_setitem ?ds (number p - 1) (Some d) = Inr (?ds[length ?ds - 1 := Some d])"
    by (simp add: list_setitem_def j)
  show ?thesis
    unfolding add_digest_def Let_def get set
    by (simp only: sum.case option.case store_then_update[OF assms(1) lt])
qed

theorem add_digest_part_zero_fills_last_witness:
  "wf_etag \<lparr>part_gen = \<lparr>part_qty = 3, initial_part_size = 67108864, final_part_size = 1\<rparr>,
          md5_digests = [None, None, None], next_index = 0\<rparr> \<and>
   add_digest \<lparr>number = 0, offset = 0, size_p = 1\<rparr> [7]
      \<lparr>part_gen = \<lparr>part_qty = 3, initial_part_size = 67108864, final_part_size = 1\<rparr>,
       md5_digests = [None, None, None], next_index = 0\<rparr> =
     (Inr (),
      \<lparr>part_gen = \<lparr>part_qty = 3, initial_part_size = 67108864, final_part_size = 1\<rparr>,
       md5_digests = [None, None, Some [7]], next_index = 0\<rparr>)"
proof -
  let ?e = "\<lparr>part_gen = \<lparr>part_qty = 3, initial_part_size = 67108864, final_part_size = 1\<rparr>,
          md5_digests = [None, None, None :: bytes option], next_index = 0\<rparr>"
  have wf: "wf_etag ?e" by (simp add: wf_etag_def etag_part_qty_def filled_prefix_def)
  have q: "1 \<le> etag_part_qty ?e" by (simp add: etag_part_qty_def)
  have l: "last (md5_digests ?e) = None" by simp
  have n: "number \<lparr>number = 0, offset = 0, size_p = 1\<rparr> = 0" by simp
  show ?thesis using wf add_digest_part_zero_fills_last[OF wf q l n, of "[7]"]
    by (simp add: filled_prefix_def)
qed

end
